theory Spec2Isabelle
  imports Main "HOL-Library.Word" "HOL-Library.Signed_Division"
begin

section \<open>Data model of gpio.go\<close>

text \<open>
  The two strings written to the value file: \<open>GPIO_OFF = "0"\<close> and \<open>GPIO_ON = "1"\<close>.
\<close>

datatype level = Low | High

text \<open>
  Go's \<open>error\<close> values come from the operating system; only their identity matters here.
  \<open>time.Duration\<close> is an \<open>int64\<close> count of nanoseconds. Go's \<open>int\<close> is taken at its
  64-bit width (amd64, arm64); on a 32-bit target its values are the sign-extended
  subset \<open>-2^31 .. 2^31 - 1\<close>, and \<open>time.Duration(value)\<close> is that sign extension.
\<close>

type_synonym error = string
type_synonym duration = "64 word"
type_synonym goint = "64 word"

text \<open>
  What the outside world observes of one pin, each with the result the operating system
  gave: every \<open>WriteString\<close> on the value file, every \<open>time.Sleep\<close> of the loop with
  its argument, the \<open>Close\<close> of the value file, and the \<open>OpenFile\<close> and \<open>WriteString\<close>
  on \<open>/sys/class/gpio/unexport\<close>; and, of the handshake, every reply that \<open>stopPwmLoop\<close>
  received on its reply channel.
\<close>

datatype io_event =
    Wrote level "error option"
  | Slept duration
  | StopReplied "error option"
  | ClosedValueFile "error option"
  | OpenedUnexport "error option"
  | WroteUnexport "8 word" "error option"

text \<open>
  The goroutine launched by \<open>startPwmLoop\<close>. It owns the local \<open>highDuration\<close>, and the
  caller can find it at one of four places:
  \<^item> \<open>Select\<close>: waiting at the \<open>select\<close> at the head of the \<open>for\<close> loop;
  \<^item> \<open>Holding\<close>: inside \<open>time.Sleep(highDuration)\<close>, between the High and the Low write
    of a cycle;
  \<^item> \<open>QuitWait err\<close>: waiting at the receive \<open>reply := <-p.quitPwmLoop\<close> that follows a
    failed write;
  \<^item> \<open>Leaving w\<close>: past its last rendezvous and on its way out. After receiving 0 or
    100 it still has to force the line (\<open>w = Some Low\<close>, \<open>w = Some High\<close>) and return;
    after answering a stop request (\<open>w = None\<close>) it only has to return. In both cases
    the deferred cleanup is still to run.
\<close>

datatype pc = Select | Holding | QuitWait error | Leaving "level option"

record task =
  highDuration :: duration
  at :: pc

text \<open>
  \<open>type pin struct\<close>: the two channel fields are \<open>nil\<close> (\<open>False\<close>) or made (\<open>True\<close>);
  every goroutine reads them through \<open>p\<close> at each receive, so the identity of the channel
  value plays no part. \<open>valueFile\<close> records whether the handle is open.
\<close>

record pin =
  channel :: "8 word"
  valueFile :: bool
  pwmLoop :: bool
  quitPwmLoop :: bool

text \<open>
  The pin together with its surroundings: whether the line is exported in sysfs, the level
  of the line, the observed events so far, and the goroutines that are alive.
\<close>

record world = pin +
  exported :: bool
  line :: level
  trace :: "io_event list"
  tasks :: "task list"

text \<open>
  A call of the (single, serialised) caller
  \<^item> \<open>Returns\<close> a value, or
  \<^item> \<open>Waits\<close>: its send has no receiver yet, because the goroutine is inside the hold of
    a cycle; the call goes on once the hold and the Low write after it are over, or
  \<^item> \<open>Blocks\<close> for ever on an unbuffered channel that nobody will receive from, or
  \<^item> \<open>Races\<close>: it was issued while a goroutine that has already been answered is on its
    way out. Nothing orders the call's reads of \<open>p.pwmLoop\<close> and \<open>p.quitPwmLoop\<close> against
    the \<open>close\<close> calls and the assignments of the deferred cleanup: the send panics on a
    closed channel, or blocks for ever on a \<open>nil\<close> one, or the call goes on with fields
    that are cleared under it. Such a call is not followed any further; or
  \<^item> \<open>Panics\<close>: a \<open>close\<close> of a \<open>nil\<close> channel.
\<close>

datatype 'a result = Returns 'a world | Waits | Blocks | Races | Panics

section \<open>Line writes and the duty-to-duration mapping\<close>

text \<open>
  \<open>p.valueFile.WriteString(...)\<close>: the kernel's answer \<open>out\<close> is supplied by the
  environment; a write that reports an error has not changed the line.
\<close>

definition writeValue :: "level \<Rightarrow> error option \<Rightarrow> world \<Rightarrow> error option \<times> world" where
  "writeValue lv out s =
     (out, s\<lparr>line := (case out of None \<Rightarrow> lv | Some e \<Rightarrow> line s),
             trace := trace s @ [Wrote lv out]\<rparr>)"

definition SetHigh :: "error option \<Rightarrow> world \<Rightarrow> error option \<times> world" where
  "SetHigh out s = writeValue High out s"

definition SetLow :: "error option \<Rightarrow> world \<Rightarrow> error option \<times> world" where
  "SetLow out s = writeValue Low out s"

text \<open>\<open>time.Millisecond\<close>, \<open>time.Microsecond\<close> and the loop's \<open>period\<close>, in nanoseconds.\<close>

definition Millisecond :: duration where
  "Millisecond = 1000000"

definition Microsecond :: duration where
  "Microsecond = 1000"

definition period :: duration where
  "period = 20 * Millisecond"

text \<open>
  Go's \<open>/\<close> on \<open>int64\<close> truncates towards zero (and wraps for \<open>MinInt64 / -1\<close>); the
  only divisor in this program is the constant 100.
\<close>

definition quo :: "duration \<Rightarrow> duration \<Rightarrow> duration" where
  "quo a b = word_of_int (sint a sdiv sint b)"

text \<open>
  \<open>(max / time.Duration(100)) * time.Duration(value)\<close> on \<open>int64\<close>, where \<open>*\<close> wraps
  around.
\<close>

definition valueToDuration :: "goint \<Rightarrow> duration \<Rightarrow> duration" where
  "valueToDuration v mx = quo mx 100 * v"

text \<open>
  \<open>time.Sleep(d)\<close>: the call is recorded; the time it takes is \<open>d\<close> nanoseconds, and
  none when \<open>d\<close> is zero or negative (the library returns immediately).
\<close>

definition Sleep :: "duration \<Rightarrow> world \<Rightarrow> world" where
  "Sleep d s = s\<lparr>trace := trace s @ [Slept d]\<rparr>"


section \<open>The control loop\<close>

text \<open>
  The goroutine and the caller meet only at unbuffered channels, and the caller
  serialises its calls. A send and the matching receive are one rendezvous, at which the
  caller's send returns; whatever the goroutine does after it (the forced write for 0 or
  100, the deferred cleanup) is a step of its own, taken before or after the caller's
  next call. The steps of the goroutine are: the first half of a cycle (High write, start
  of the sleep), the second half (end of the sleep, Low write), and the way out (forced
  write if any, then the cleanup).
\<close>

definition set_pc :: "nat \<Rightarrow> pc \<Rightarrow> world \<Rightarrow> world" where
  "set_pc i p s = s\<lparr>tasks := (tasks s)[i := (tasks s ! i)\<lparr>at := p\<rparr>]\<rparr>"

text \<open>
  The deferred cleanup of goroutine \<open>i\<close>, run when its body returns: \<open>close\<close> of a \<open>nil\<close>
  channel panics; otherwise both channels are closed, both fields become \<open>nil\<close>, the
  ticker is stopped and the goroutine is gone.
\<close>

definition cleanup :: "nat \<Rightarrow> world \<Rightarrow> world option" where
  "cleanup i s =
     (if pwmLoop s \<and> quitPwmLoop s then
        Some (s\<lparr>pwmLoop := False, quitPwmLoop := False,
                tasks := take i (tasks s) @ drop (Suc i) (tasks s)\<rparr>)
      else None)"

text \<open>
  The way out of goroutine \<open>i\<close>: \<open>p.SetLow()\<close> or \<open>p.SetHigh()\<close> if it received 0 or
  100 (the result \<open>out\<close> of that write is dropped), then \<open>return\<close>, which runs the
  cleanup. \<open>None\<close> is the panic of the cleanup. The step is enabled only for a goroutine
  that is leaving.
\<close>

definition force :: "level \<Rightarrow> error option \<Rightarrow> world \<Rightarrow> error option \<times> world" where
  "force lv out s = (case lv of Low \<Rightarrow> SetLow out s | High \<Rightarrow> SetHigh out s)"

definition finish :: "nat \<Rightarrow> error option \<Rightarrow> world \<Rightarrow> world option" where
  "finish i out s =
     (if i < length (tasks s) then
        (case at (tasks s ! i) of
           Leaving w \<Rightarrow>
             cleanup i (case w of None \<Rightarrow> s | Some lv \<Rightarrow> snd (force lv out s))
         | Select \<Rightarrow> Some s
         | Holding \<Rightarrow> Some s
         | QuitWait e \<Rightarrow> Some s)
      else Some s)"

text \<open>
  \<open>case v := <-p.pwmLoop\<close> in goroutine \<open>i\<close>, at the rendezvous: for 0 and for 100 the
  goroutine is on its way out with a write to force; anything else sets \<open>highDuration\<close>.
\<close>

definition loop_recv :: "nat \<Rightarrow> goint \<Rightarrow> world \<Rightarrow> world" where
  "loop_recv i v s =
     (if v = 0 then set_pc i (Leaving (Some Low)) s
      else if v = 100 then set_pc i (Leaving (Some High)) s
      else s\<lparr>tasks := (tasks s)
             [i := (tasks s ! i)\<lparr>highDuration := valueToDuration v period\<rparr>]\<rparr>)"

text \<open>
  \<open>case <-ticker.C\<close> in goroutine \<open>i\<close>, enabled only while it waits at the \<open>select\<close>:
  High, sleep \<open>highDuration\<close>, Low; a failed write parks the goroutine at
  \<open>reply := <-p.quitPwmLoop\<close> with the error. \<open>tick_high\<close> runs up to the sleep,
  \<open>tick_low\<close> from the end of the sleep, and \<open>tick\<close> is a whole cycle with no call of the
  caller in between.
\<close>

definition park :: "nat \<Rightarrow> error \<Rightarrow> world \<Rightarrow> world" where
  "park i e s = set_pc i (QuitWait e) s"

definition tick_high :: "nat \<Rightarrow> error option \<Rightarrow> world \<Rightarrow> world" where
  "tick_high i oh s =
     (if i < length (tasks s) \<and> at (tasks s ! i) = Select then
        (case SetHigh oh s of
           (Some e, s1) \<Rightarrow> park i e s1
         | (None, s1) \<Rightarrow> set_pc i Holding (Sleep (highDuration (tasks s ! i)) s1))
      else s)"

definition tick_low :: "nat \<Rightarrow> error option \<Rightarrow> world \<Rightarrow> world" where
  "tick_low i ol s =
     (if i < length (tasks s) \<and> at (tasks s ! i) = Holding then
        (case SetLow ol s of
           (Some e, s1) \<Rightarrow> park i e s1
         | (None, s1) \<Rightarrow> set_pc i Select s1)
      else s)"

definition tick :: "nat \<Rightarrow> error option \<Rightarrow> error option \<Rightarrow> world \<Rightarrow> world" where
  "tick i oh ol s = tick_low i ol (tick_high i oh s)"

text \<open>
  Who can take a send. A value on \<open>p.pwmLoop\<close> is received only at the \<open>select\<close>; a
  reply channel on \<open>p.quitPwmLoop\<close> is received at the \<open>select\<close> and at the receive after
  a failed write. \<open>first_at\<close> is the first goroutine at such a place.
\<close>

definition takes_value :: "pc \<Rightarrow> bool" where
  "takes_value p = (case p of Select \<Rightarrow> True | Holding \<Rightarrow> False | QuitWait e \<Rightarrow> False | Leaving w \<Rightarrow> False)"

definition takes_quit :: "pc \<Rightarrow> bool" where
  "takes_quit p = (case p of Select \<Rightarrow> True | Holding \<Rightarrow> False | QuitWait e \<Rightarrow> True | Leaving w \<Rightarrow> False)"

definition leaving :: "pc \<Rightarrow> bool" where
  "leaving p = (case p of Select \<Rightarrow> False | Holding \<Rightarrow> False | QuitWait e \<Rightarrow> False | Leaving w \<Rightarrow> True)"

definition holding :: "pc \<Rightarrow> bool" where
  "holding p = (case p of Select \<Rightarrow> False | Holding \<Rightarrow> True | QuitWait e \<Rightarrow> False | Leaving w \<Rightarrow> False)"

fun first_at :: "(pc \<Rightarrow> bool) \<Rightarrow> task list \<Rightarrow> nat option" where
  "first_at P [] = None"
| "first_at P (t # ts) = (if P (at t) then Some 0 else map_option Suc (first_at P ts))"

text \<open>
  A send on a channel field that is set, with no goroutine at a place where it receives:
  the call races with a goroutine that is leaving, or waits for one that is holding, or
  blocks for ever.
\<close>

definition no_receiver :: "task list \<Rightarrow> 'a result" where
  "no_receiver ts =
     (if list_ex (\<lambda>t. leaving (at t)) ts then Races
      else if list_ex (\<lambda>t. holding (at t)) ts then Waits
      else Blocks)"

section \<open>The caller's side\<close>

text \<open>
  \<open>startPwmLoop\<close>: with a channel in place the value is sent on it, and the call returns
  as soon as a goroutine at its \<open>select\<close> has received it; otherwise both channels are
  made and a goroutine is launched, whose \<open>highDuration\<close> starts at the zero value. The
  body of the goroutine never reads \<open>initialValue\<close>.
\<close>

definition startPwmLoop :: "goint \<Rightarrow> world \<Rightarrow> unit result" where
  "startPwmLoop initialValue s =
     (if pwmLoop s then
        (case first_at takes_value (tasks s) of
           Some i \<Rightarrow> Returns () (loop_recv i initialValue s)
         | None \<Rightarrow> no_receiver (tasks s))
      else Returns () (s\<lparr>pwmLoop := True, quitPwmLoop := True,
             tasks := tasks s @ [\<lparr>highDuration = 0, at = Select\<rparr>]\<rparr>))"

text \<open>
  \<open>stopPwmLoop\<close>: the reply channel is sent on \<open>p.quitPwmLoop\<close> (a send on \<open>nil\<close> blocks
  for ever). A goroutine takes it at the \<open>select\<close> and answers \<open>nil\<close>, or at the receive
  after a failed write and answers that error. The call returns with the answer; the
  goroutine has still to return and to run its cleanup.
\<close>

definition stopPwmLoop :: "world \<Rightarrow> error option result" where
  "stopPwmLoop s =
     (if pwmLoop s = False then Returns None s
      else if quitPwmLoop s = False then Blocks
      else (case first_at takes_quit (tasks s) of
              Some i \<Rightarrow>
                (case (case at (tasks s ! i) of
                         QuitWait e \<Rightarrow> Some e
                       | Select \<Rightarrow> None | Holding \<Rightarrow> None | Leaving w \<Rightarrow> None) of
                   r \<Rightarrow> Returns r
                     ((set_pc i (Leaving None) s)\<lparr>trace := trace s @ [StopReplied r]\<rparr>))
            | None \<Rightarrow> no_receiver (tasks s)))"

definition SetPWM :: "goint \<Rightarrow> error option \<Rightarrow> world \<Rightarrow> error option result" where
  "SetPWM v out s =
     (if v = 0 then
        (case stopPwmLoop s of
           Returns r s1 \<Rightarrow> Returns None (snd (SetLow out s1))
         | Waits \<Rightarrow> Waits
         | Blocks \<Rightarrow> Blocks
         | Races \<Rightarrow> Races
         | Panics \<Rightarrow> Panics)
      else
        (case startPwmLoop v s of
           Returns u s1 \<Rightarrow> Returns None s1
         | Waits \<Rightarrow> Waits
         | Blocks \<Rightarrow> Blocks
         | Races \<Rightarrow> Races
         | Panics \<Rightarrow> Panics))"

text \<open>
  \<open>unexportChannel\<close>: open the unexport file (\<open>oo\<close>), write the channel number (\<open>ow\<close>);
  the deferred close of that file has no result.
\<close>

definition unexportChannel :: "error option \<Rightarrow> error option \<Rightarrow> world \<Rightarrow> error option \<times> world" where
  "unexportChannel oo ow s =
     (case oo of
        Some e \<Rightarrow> (Some e, s\<lparr>trace := trace s @ [OpenedUnexport oo]\<rparr>)
      | None \<Rightarrow>
          (ow, s\<lparr>exported := (case ow of None \<Rightarrow> False | Some e \<Rightarrow> exported s),
                  trace := trace s @ [OpenedUnexport oo, WroteUnexport (channel s) ow]\<rparr>))"

text \<open>\<open>p.valueFile.Close()\<close> with the result \<open>oc\<close>.\<close>

definition closeValueFile :: "error option \<Rightarrow> world \<Rightarrow> error option \<times> world" where
  "closeValueFile oc s =
     (oc, s\<lparr>valueFile := (case oc of None \<Rightarrow> False | Some e \<Rightarrow> valueFile s),
             trace := trace s @ [ClosedValueFile oc]\<rparr>)"

definition Close :: "error option \<Rightarrow> error option \<Rightarrow> error option \<Rightarrow> world \<Rightarrow> error option result" where
  "Close oc oo ow s =
     (case stopPwmLoop s of
        Waits \<Rightarrow> Waits
      | Blocks \<Rightarrow> Blocks
      | Races \<Rightarrow> Races
      | Panics \<Rightarrow> Panics
      | Returns (Some e) s1 \<Rightarrow> Returns (Some e) s1
      | Returns None s1 \<Rightarrow>
          (case closeValueFile oc s1 of
             (Some e, s2) \<Rightarrow> Returns (Some e) s2
           | (None, s2) \<Rightarrow>
               (case unexportChannel oo ow s2 of (r, s3) \<Rightarrow> Returns r s3)))"

text \<open>
  \<open>GetValue\<close> and \<open>IsHigh\<close>: \<open>rd\<close> is the result of \<open>ioutil.ReadAll(p.valueFile)\<close> and
  \<open>atoi\<close> stands for \<open>strconv.Atoi\<close>, both of the standard library.
\<close>

definition GetValue :: "(string \<Rightarrow> goint \<times> error option) \<Rightarrow> error + string \<Rightarrow> goint \<times> error option" where
  "GetValue atoi rd = (case rd of Inl err \<Rightarrow> (0, None) | Inr b \<Rightarrow> atoi b)"

definition IsHigh :: "(string \<Rightarrow> goint \<times> error option) \<Rightarrow> error + string \<Rightarrow> bool \<times> error option" where
  "IsHigh atoi rd = (case GetValue atoi rd of (val, err) \<Rightarrow> (val = 1, err))"

section \<open>Runs of one pin\<close>

text \<open>
  The pin that \<open>NewPWMPin\<close> hands out when \<open>init\<close> and \<open>setMode\<close> succeed:
  \<open>&pin{channel: channel}\<close> with the value file opened, both channel fields \<open>nil\<close>, and
  no goroutine; \<open>lv\<close> is the level the line happens to have.
\<close>

definition new_pin :: "8 word \<Rightarrow> level \<Rightarrow> world" where
  "new_pin ch lv =
     \<lparr>channel = ch, valueFile = True, pwmLoop = False, quitPwmLoop = False,
      exported = True, line = lv, trace = [], tasks = []\<rparr>"

text \<open>
  What can happen to a pin whose caller serialises its calls: a call of \<open>SetPWM\<close> or
  \<open>Close\<close>, or a step of goroutine \<open>i\<close>: a whole cycle (\<open>DoTick\<close>), its first or second
  half (\<open>DoTickHigh\<close>, \<open>DoTickLow\<close>), or its way out (\<open>DoFinish\<close>). The steps of a
  goroutine come in any order with the calls: a call may follow the previous one before
  or after the goroutine has taken the step that the previous call left it with.
\<close>

datatype action =
    DoSetPWM goint "error option"
  | DoClose "error option" "error option" "error option"
  | DoTick nat "error option" "error option"
  | DoTickHigh nat "error option"
  | DoTickLow nat "error option"
  | DoFinish nat "error option"

definition is_call :: "action \<Rightarrow> bool" where
  "is_call a =
     (case a of
        DoSetPWM v out \<Rightarrow> True
      | DoClose oc oo ow \<Rightarrow> True
      | DoTick i oh ol \<Rightarrow> False
      | DoTickHigh i oh \<Rightarrow> False
      | DoTickLow i ol \<Rightarrow> False
      | DoFinish i out \<Rightarrow> False)"


fun forget :: "'a result \<Rightarrow> unit result" where
  "forget (Returns r s) = Returns () s"
| "forget Waits = Waits"
| "forget Blocks = Blocks"
| "forget Races = Races"
| "forget Panics = Panics"

fun step :: "action \<Rightarrow> world \<Rightarrow> unit result" where
  "step (DoSetPWM v out) s = forget (SetPWM v out s)"
| "step (DoClose oc oo ow) s = forget (Close oc oo ow s)"
| "step (DoTick i oh ol) s = Returns () (tick i oh ol s)"
| "step (DoTickHigh i oh) s = Returns () (tick_high i oh s)"
| "step (DoTickLow i ol) s = Returns () (tick_low i ol s)"
| "step (DoFinish i out) s =
     (case finish i out s of None \<Rightarrow> Panics | Some s' \<Rightarrow> Returns () s')"

text \<open>
  A run stops at a call that blocks, races or panics: the caller never issues another
  call, and the state stays as it was. A call that waits is taken up again after the next
  step of the goroutine; the caller, being inside that call, cannot issue another one.
\<close>

fun run :: "action list \<Rightarrow> world \<Rightarrow> world" where
  "run [] s = s"
| "run [a] s = (case step a s of Returns u s' \<Rightarrow> s' | Waits \<Rightarrow> s | Blocks \<Rightarrow> s | Races \<Rightarrow> s | Panics \<Rightarrow> s)"
| "run (a # g # as) s =
     (case step a s of
        Returns u s' \<Rightarrow> run (g # as) s'
      | Waits \<Rightarrow>
          (if is_call g then s
           else (case step g s of
                   Returns u s' \<Rightarrow> run (a # as) s'
                 | Waits \<Rightarrow> s | Blocks \<Rightarrow> s | Races \<Rightarrow> s | Panics \<Rightarrow> s))
      | Blocks \<Rightarrow> s
      | Races \<Rightarrow> s
      | Panics \<Rightarrow> s)"

text \<open>
  The states in which the channel fields and the goroutines agree: at most one goroutine,
  and the fields are set exactly while it is alive. \<open>phase\<close> is where that goroutine is.
\<close>

definition attached :: "world \<Rightarrow> bool" where
  "attached s = (pwmLoop s \<and> quitPwmLoop s \<and> length (tasks s) = 1)"

definition detached :: "world \<Rightarrow> bool" where
  "detached s = (\<not> pwmLoop s \<and> \<not> quitPwmLoop s \<and> tasks s = [])"

definition consistent :: "world \<Rightarrow> bool" where
  "consistent s = (attached s \<or> detached s)"

definition phase :: "world \<Rightarrow> pc option" where
  "phase s = (case tasks s of [] \<Rightarrow> None | t # ts \<Rightarrow> Some (at t))"




text \<open>The value a call returned, if it returned.\<close>

fun returned :: "'a result \<Rightarrow> 'a option" where
  "returned (Returns r s) = Some r"
| "returned Waits = None"
| "returned Blocks = None"
| "returned Races = None"
| "returned Panics = None"

text \<open>
  Pins reached from a new pin on channel 4 whose line is Low: one whose loop runs at 30
  percent; one whose loop met \<open>EIO\<close> on the High write of its first tick; one that was
  sent 100 while its loop was running, after the loop has forced High and gone; one that
  was sent 100 a moment ago, the loop still on its way out; one that was stopped by
  \<open>SetPWM(0)\<close> a moment ago, the loop still on its way out; and one whose loop is inside
  the hold of a cycle.
\<close>

definition example_running :: world where
  "example_running = run [DoSetPWM 50 None, DoSetPWM 30 None] (new_pin 4 Low)"

definition example_parked :: world where
  "example_parked = run [DoSetPWM 50 None, DoTick 0 (Some ''EIO'') None] (new_pin 4 Low)"


definition example_sent_100 :: world where
  "example_sent_100 = run [DoSetPWM 50 None, DoSetPWM 100 None] (new_pin 4 Low)"

definition example_stopped :: world where
  "example_stopped = run [DoSetPWM 50 None, DoSetPWM 0 None] (new_pin 4 Low)"

definition example_holding :: world where
  "example_holding =
     run [DoSetPWM 50 None, DoSetPWM 30 None, DoTickHigh 0 None] (new_pin 4 Low)"

section \<open>Arithmetic of the duty-to-duration mapping\<close>

lemma quo_period: "quo period 100 = 200000"
  by (simp add: period_def quo_def Millisecond_def)

lemma sint_scale:
  fixes v :: goint
  assumes "- 46116860184273 \<le> sint v" "sint v \<le> 46116860184273"
  shows "sint (200000 * v) = 200000 * sint v"
proof -
  have "sint (200000 * v) = signed_take_bit 63 (sint (200000 :: goint) * sint v)"
    by (simp add: sint_word_ariths)
  also have "sint (200000 :: goint) = 200000" by simp
  also have "signed_take_bit 63 (200000 * sint v) = 200000 * sint v"
    using assms by (intro signed_take_bit_int_eq_self) simp_all
  finally show ?thesis .
qed

section \<open>One goroutine: where it is, and what a call meets\<close>

lemma consistent_new_pin: "consistent (new_pin ch lv)"
  by (simp add: consistent_def detached_def new_pin_def)

lemma attached_single: "attached s \<Longrightarrow> \<exists>t. tasks s = [t]"
  by (cases "tasks s") (auto simp: attached_def)

lemma consistent_cases:
  assumes "consistent s"
  obtains (idle) "detached s" "phase s = None"
  | (running) t where "attached s" "tasks s = [t]" "at t = Select" "phase s = Some Select"
  | (inhold) t where "attached s" "tasks s = [t]" "at t = Holding" "phase s = Some Holding"
  | (stuck) t e where "attached s" "tasks s = [t]" "at t = QuitWait e"
      "phase s = Some (QuitWait e)"
  | (going) t w where "attached s" "tasks s = [t]" "at t = Leaving w"
      "phase s = Some (Leaving w)"
proof (cases "attached s")
  case False
  with assms have "detached s" by (simp add: consistent_def)
  then show ?thesis using idle by (simp add: detached_def phase_def)
next
  case True
  then obtain t where t: "tasks s = [t]" using attached_single by blast
  show ?thesis
  proof (cases "at t")
    case Select
    with True t show ?thesis using running by (simp add: phase_def)
  next
    case Holding
    with True t show ?thesis using inhold by (simp add: phase_def)
  next
    case (QuitWait e)
    with True t show ?thesis using stuck by (simp add: phase_def)
  next
    case (Leaving w)
    with True t show ?thesis using going by (simp add: phase_def)
  qed
qed



lemma tick_low_holding:
  assumes "tasks s = [t]" "at t = Holding"
  shows "tick_low 0 ol s =
     (case ol of
        Some e \<Rightarrow> s\<lparr>trace := trace s @ [Wrote Low ol], tasks := [t\<lparr>at := QuitWait e\<rparr>]\<rparr>
      | None \<Rightarrow> s\<lparr>line := Low, trace := trace s @ [Wrote Low None],
                  tasks := [t\<lparr>at := Select\<rparr>]\<rparr>)"
  using assms
  by (simp add: tick_low_def SetLow_def writeValue_def park_def set_pc_def
      split: option.splits)






lemma tick_high_keeps:
  "pwmLoop (tick_high i oh s) = pwmLoop s"
  "quitPwmLoop (tick_high i oh s) = quitPwmLoop s"
  "length (tasks (tick_high i oh s)) = length (tasks s)"
  by (simp_all add: tick_high_def SetHigh_def writeValue_def Sleep_def park_def set_pc_def
      split: option.splits)

lemma tick_low_keeps:
  "pwmLoop (tick_low i ol s) = pwmLoop s"
  "quitPwmLoop (tick_low i ol s) = quitPwmLoop s"
  "length (tasks (tick_low i ol s)) = length (tasks s)"
  by (simp_all add: tick_low_def SetLow_def writeValue_def park_def set_pc_def
      split: option.splits)

lemma tick_keeps:
  "pwmLoop (tick i oh ol s) = pwmLoop s"
  "quitPwmLoop (tick i oh ol s) = quitPwmLoop s"
  "length (tasks (tick i oh ol s)) = length (tasks s)"
  by (simp_all add: tick_def tick_high_keeps tick_low_keeps)

lemma consistent_by_fields:
  assumes "pwmLoop s' = pwmLoop s" "quitPwmLoop s' = quitPwmLoop s"
    "length (tasks s') = length (tasks s)" "consistent s"
  shows "consistent s'"
proof -
  have "(tasks s' = []) = (tasks s = [])"
    using assms(3) by (metis length_0_conv)
  with assms show ?thesis
    by (simp add: consistent_def attached_def detached_def)
qed

lemma consistent_tick_high: "consistent s \<Longrightarrow> consistent (tick_high i oh s)"
  by (rule consistent_by_fields[OF tick_high_keeps])

lemma consistent_tick_low: "consistent s \<Longrightarrow> consistent (tick_low i ol s)"
  by (rule consistent_by_fields[OF tick_low_keeps])

lemma consistent_tick: "consistent s \<Longrightarrow> consistent (tick i oh ol s)"
  by (rule consistent_by_fields[OF tick_keeps])

lemma startPwmLoop_detached:
  "detached s \<Longrightarrow> startPwmLoop v s =
     Returns () (s\<lparr>pwmLoop := True, quitPwmLoop := True,
        tasks := [\<lparr>highDuration = 0, at = Select\<rparr>]\<rparr>)"
  by (simp add: startPwmLoop_def detached_def)

lemma startPwmLoop_forward:
  assumes "attached s" "tasks s = [t]" "at t = Select"
  shows "startPwmLoop v s =
    (if v = 0 then Returns () (s\<lparr>tasks := [t\<lparr>at := Leaving (Some Low)\<rparr>]\<rparr>)
     else if v = 100 then Returns () (s\<lparr>tasks := [t\<lparr>at := Leaving (Some High)\<rparr>]\<rparr>)
     else Returns () (s\<lparr>tasks := [t\<lparr>highDuration := valueToDuration v period\<rparr>]\<rparr>))"
  using assms
  by (simp add: startPwmLoop_def attached_def loop_recv_def set_pc_def takes_value_def)

lemma startPwmLoop_holding:
  "attached s \<Longrightarrow> tasks s = [t] \<Longrightarrow> at t = Holding \<Longrightarrow> startPwmLoop v s = Waits"
  by (simp add: startPwmLoop_def attached_def takes_value_def no_receiver_def
      leaving_def holding_def)

lemma startPwmLoop_parked:
  "attached s \<Longrightarrow> tasks s = [t] \<Longrightarrow> at t = QuitWait e \<Longrightarrow> startPwmLoop v s = Blocks"
  by (simp add: startPwmLoop_def attached_def takes_value_def no_receiver_def
      leaving_def holding_def)

lemma startPwmLoop_leaving:
  "attached s \<Longrightarrow> tasks s = [t] \<Longrightarrow> at t = Leaving w \<Longrightarrow> startPwmLoop v s = Races"
  by (simp add: startPwmLoop_def attached_def takes_value_def no_receiver_def
      leaving_def holding_def)

lemma stopPwmLoop_detached:
  "detached s \<Longrightarrow> stopPwmLoop s = Returns None s"
  by (simp add: stopPwmLoop_def detached_def)

lemma stopPwmLoop_select:
  assumes "attached s" "tasks s = [t]" "at t = Select"
  shows "stopPwmLoop s =
    Returns None (s\<lparr>trace := trace s @ [StopReplied None],
       tasks := [t\<lparr>at := Leaving None\<rparr>]\<rparr>)"
  using assms by (simp add: stopPwmLoop_def attached_def takes_quit_def set_pc_def)

lemma stopPwmLoop_parked:
  assumes "attached s" "tasks s = [t]" "at t = QuitWait e"
  shows "stopPwmLoop s =
    Returns (Some e) (s\<lparr>trace := trace s @ [StopReplied (Some e)],
       tasks := [t\<lparr>at := Leaving None\<rparr>]\<rparr>)"
  using assms by (simp add: stopPwmLoop_def attached_def takes_quit_def set_pc_def)

lemma stopPwmLoop_holding:
  "attached s \<Longrightarrow> tasks s = [t] \<Longrightarrow> at t = Holding \<Longrightarrow> stopPwmLoop s = Waits"
  by (simp add: stopPwmLoop_def attached_def takes_quit_def no_receiver_def
      leaving_def holding_def)

lemma stopPwmLoop_leaving:
  "attached s \<Longrightarrow> tasks s = [t] \<Longrightarrow> at t = Leaving w \<Longrightarrow> stopPwmLoop s = Races"
  by (simp add: stopPwmLoop_def attached_def takes_quit_def no_receiver_def
      leaving_def holding_def)

lemma finish_leaving:
  assumes "attached s" "tasks s = [t]" "at t = Leaving w"
  shows "finish 0 out s =
     Some (case w of
        None \<Rightarrow> s\<lparr>pwmLoop := False, quitPwmLoop := False, tasks := []\<rparr>
      | Some lv \<Rightarrow> s\<lparr>line := (case out of None \<Rightarrow> lv | Some e \<Rightarrow> line s),
            trace := trace s @ [Wrote lv out],
            pwmLoop := False, quitPwmLoop := False, tasks := []\<rparr>)"
  using assms
  by (cases w; cases "the w")
     (simp_all add: finish_def cleanup_def force_def SetLow_def SetHigh_def writeValue_def
        attached_def)

lemma finish_other:
  assumes "tasks s = [t]" "\<not> leaving (at t)"
  shows "finish i out s = Some s"
  using assms by (cases i; cases "at t") (simp_all add: finish_def leaving_def)

lemma finish_detached: "detached s \<Longrightarrow> finish i out s = Some s"
  by (simp add: finish_def detached_def)

lemma stopPwmLoop_consistent:
  assumes "consistent s" "stopPwmLoop s = Returns r s'"
  shows "consistent s'"
  using assms(1)
proof (cases rule: consistent_cases)
  case idle
  with assms show ?thesis by (simp add: stopPwmLoop_detached)
next
  case (running t)
  with assms(2) show ?thesis
    by (auto simp: stopPwmLoop_select consistent_def attached_def)
next
  case (inhold t)
  with assms(2) show ?thesis by (simp add: stopPwmLoop_holding)
next
  case (stuck t e)
  with assms(2) show ?thesis
    by (auto simp: stopPwmLoop_parked consistent_def attached_def)
next
  case (going t w)
  with assms(2) show ?thesis by (simp add: stopPwmLoop_leaving)
qed

lemma startPwmLoop_consistent:
  assumes "consistent s" "startPwmLoop v s = Returns u s'"
  shows "consistent s'"
  using assms(1)
proof (cases rule: consistent_cases)
  case idle
  with assms(2) show ?thesis
    by (auto simp: startPwmLoop_detached consistent_def attached_def detached_def)
next
  case (running t)
  from assms(2) running(1) show ?thesis
    unfolding startPwmLoop_forward[OF running(1,2,3)]
    by (auto simp: consistent_def attached_def split: if_splits)
next
  case (inhold t)
  with assms(2) show ?thesis by (simp add: startPwmLoop_holding)
next
  case (stuck t e)
  with assms(2) show ?thesis by (simp add: startPwmLoop_parked)
next
  case (going t w)
  with assms(2) show ?thesis by (simp add: startPwmLoop_leaving)
qed

lemma SetLow_consistent: "consistent s \<Longrightarrow> consistent (snd (SetLow out s))"
  by (simp add: consistent_def attached_def detached_def SetLow_def writeValue_def)

lemma SetPWM_consistent:
  assumes "consistent s" "SetPWM v out s = Returns r s'"
  shows "consistent s'"
proof (cases "v = 0")
  case True
  with assms(2) obtain r1 s1 where "stopPwmLoop s = Returns r1 s1" "s' = snd (SetLow out s1)"
    by (auto simp: SetPWM_def split: result.splits)
  with assms(1) show ?thesis
    using SetLow_consistent stopPwmLoop_consistent by blast
next
  case False
  with assms(2) obtain u where "startPwmLoop v s = Returns u s'"
    by (auto simp: SetPWM_def split: result.splits)
  with assms(1) show ?thesis by (rule startPwmLoop_consistent)
qed

lemma Close_consistent:
  assumes "consistent s" "Close oc oo ow s = Returns r s'"
  shows "consistent s'"
proof -
  from assms(2) obtain r1 s1 where st: "stopPwmLoop s = Returns r1 s1"
    by (auto simp: Close_def split: result.splits)
  with assms(1) have c: "consistent s1" by (rule stopPwmLoop_consistent)
  from assms(2) st have "pwmLoop s' = pwmLoop s1 \<and> quitPwmLoop s' = quitPwmLoop s1
      \<and> length (tasks s') = length (tasks s1)"
    by (auto simp: Close_def closeValueFile_def unexportChannel_def split: option.splits)
  then show ?thesis using c consistent_by_fields by blast
qed

lemma finish_consistent:
  assumes "consistent s" "finish i out s = Some s'"
  shows "consistent s'"
  using assms(1)
proof (cases rule: consistent_cases)
  case idle
  with assms show ?thesis by (simp add: finish_detached)
next
  case (running t)
  with assms show ?thesis by (simp add: finish_other leaving_def)
next
  case (inhold t)
  with assms show ?thesis by (simp add: finish_other leaving_def)
next
  case (stuck t e)
  with assms show ?thesis by (simp add: finish_other leaving_def)
next
  case (going t w)
  have "i = 0 \<or> finish i out s = Some s"
    using going(2) by (cases i) (simp_all add: finish_def)
  then show ?thesis
  proof
    assume "i = 0"
    with assms(2) going show ?thesis
      by (auto simp: finish_leaving consistent_def detached_def split: option.splits)
  next
    assume "finish i out s = Some s"
    with assms show ?thesis by simp
  qed
qed

lemma step_consistent: "consistent s \<Longrightarrow> step a s = Returns u s' \<Longrightarrow> consistent s'"
proof (cases a)
  case (DoSetPWM v out)
  assume "consistent s" "step a s = Returns u s'"
  with DoSetPWM show ?thesis
    by (cases "SetPWM v out s") (auto dest: SetPWM_consistent)
next
  case (DoClose oc oo ow)
  assume "consistent s" "step a s = Returns u s'"
  with DoClose show ?thesis
    by (cases "Close oc oo ow s") (auto dest: Close_consistent)
next
  case (DoTick i oh ol)
  assume "consistent s" "step a s = Returns u s'"
  with DoTick show ?thesis by (auto simp: consistent_tick)
next
  case (DoTickHigh i oh)
  assume "consistent s" "step a s = Returns u s'"
  with DoTickHigh show ?thesis by (auto simp: consistent_tick_high)
next
  case (DoTickLow i ol)
  assume "consistent s" "step a s = Returns u s'"
  with DoTickLow show ?thesis by (auto simp: consistent_tick_low)
next
  case (DoFinish i out)
  assume "consistent s" "step a s = Returns u s'"
  with DoFinish show ?thesis
    by (auto dest: finish_consistent split: option.splits)
qed

lemma run_consistent: "consistent s \<Longrightarrow> consistent (run as s)"
proof (induction as s rule: run.induct)
  case (1 s)
  then show ?case by simp
next
  case (2 a s)
  then show ?case
    by (cases "step a s") (auto dest: step_consistent)
next
  case (3 a g as s)
  show ?case
  proof (cases "step a s")
    case (Returns u s')
    with 3 show ?thesis by (auto dest: step_consistent)
  next
    case Waits
    show ?thesis
    proof (cases "is_call g")
      case True
      with Waits 3(3) show ?thesis by simp
    next
      case False
      show ?thesis
      proof (cases "step g s")
        case (Returns u s')
        with 3(3) have "consistent s'" by (auto dest: step_consistent)
        with 3(2)[OF Waits False Returns] Waits False Returns show ?thesis by simp
      qed (use Waits False 3(3) in simp_all)
    qed
  qed (use 3(3) in simp_all)
qed



lemma example_parked_eq:
  "example_parked = \<lparr>channel = 4, valueFile = True, pwmLoop = True, quitPwmLoop = True,
     exported = True, line = Low, trace = [Wrote High (Some ''EIO'')],
     tasks = [\<lparr>highDuration = 0, at = QuitWait ''EIO''\<rparr>]\<rparr>"
  by code_simp

section \<open>Starting a loop\<close>

lemma SetPWM_detached:
  assumes "detached s" "v \<noteq> 0"
  shows "SetPWM v out s =
     Returns None (s\<lparr>pwmLoop := True, quitPwmLoop := True,
        tasks := [\<lparr>highDuration = 0, at = Select\<rparr>]\<rparr>)"
  using assms by (simp add: SetPWM_def startPwmLoop_detached)

text \<open>
  The sibling path: a loop that waits at its \<open>select\<close> takes the 100, and on its way
  out forces the line High and clears the fields.
\<close>

lemma SetPWM_100_running:
  assumes "attached s" "tasks s = [t]" "at t = Select"
  shows "SetPWM 100 out s = Returns None (s\<lparr>tasks := [t\<lparr>at := Leaving (Some High)\<rparr>]\<rparr>)
     \<and> finish 0 None (s\<lparr>tasks := [t\<lparr>at := Leaving (Some High)\<rparr>]\<rparr>) =
         Some (s\<lparr>line := High, trace := trace s @ [Wrote High None],
            pwmLoop := False, quitPwmLoop := False, tasks := []\<rparr>)"
proof -
  let ?s1 = "s\<lparr>tasks := [t\<lparr>at := Leaving (Some High)\<rparr>]\<rparr>"
  have "SetPWM 100 out s = Returns None ?s1"
    by (simp add: SetPWM_def startPwmLoop_forward[OF assms])
  moreover have "attached ?s1" using assms(1) by (simp add: attached_def)
  then have "finish 0 None ?s1 =
      Some (?s1\<lparr>line := High, trace := trace ?s1 @ [Wrote High None],
         pwmLoop := False, quitPwmLoop := False, tasks := []\<rparr>)"
    using finish_leaving[of ?s1 "t\<lparr>at := Leaving (Some High)\<rparr>" "Some High" None] by simp
  ultimately show ?thesis by simp
qed

text \<open>
  C1. The claim: for a duty value \<open>v\<close> in 1..99 and a pin with no loop attached,
  \<open>SetPWM(v)\<close> starts a loop whose initial duty value is \<open>v\<close>, so that the first cycle
  holds High for \<open>period * v / 100\<close>. The code at \<open>v = 50\<close> on a new pin: the call
  returns \<open>nil\<close> with a loop attached whose \<open>highDuration\<close> is 0, and the first tick
  writes High, sleeps 0 ns and writes Low, where \<open>valueToDuration(50, period)\<close> is 10 ms.
\<close>

theorem SetPWM_50_first_cycle:
  "SetPWM 50 None (new_pin 4 Low) =
     Returns None ((new_pin 4 Low)\<lparr>pwmLoop := True, quitPwmLoop := True,
        tasks := [\<lparr>highDuration = 0, at = Select\<rparr>]\<rparr>)
   \<and> trace (run [DoSetPWM 50 None, DoTick 0 None None] (new_pin 4 Low)) =
       [Wrote High None, Slept 0, Wrote Low None]
   \<and> valueToDuration 50 period = 10 * Millisecond"
  by code_simp

text \<open>
  C2. The claim: from every prior state, \<open>SetPWM(100)\<close> forces the line High and leaves
  no loop attached. The code on a new pin whose line is Low: the call returns \<open>nil\<close>,
  nothing has been written, the line is still Low, and a loop is attached (with
  \<open>highDuration\<close> 0, so each of its ticks writes High and at once Low).
\<close>

theorem SetPWM_100_on_new_pin:
  "SetPWM 100 None (new_pin 4 Low) =
     Returns None ((new_pin 4 Low)\<lparr>pwmLoop := True, quitPwmLoop := True,
        tasks := [\<lparr>highDuration = 0, at = Select\<rparr>]\<rparr>)
   \<and> line (run [DoSetPWM 100 None] (new_pin 4 Low)) = Low
   \<and> trace (run [DoSetPWM 100 None] (new_pin 4 Low)) = []
   \<and> attached (run [DoSetPWM 100 None] (new_pin 4 Low))
   \<and> trace (run [DoSetPWM 100 None, DoTick 0 None None] (new_pin 4 Low)) =
       [Wrote High None, Slept 0, Wrote Low None]"
  by code_simp

section \<open>A failed write inside a tick\<close>




section \<open>A call that overlaps the way out of a loop\<close>

text \<open>
  \<open>stopPwmLoop\<close> returns on the reply, and a send of 100 returns at the rendezvous; the
  goroutine clears the fields later, in its deferred cleanup, and nothing makes the next
  call wait for that. After \<open>SetPWM(0)\<close> on a running loop the fields are still set and
  the goroutine is still there; so they are after \<open>SetPWM(100)\<close>, with the High write
  still to come. A call issued then races with the cleanup, and a run of back-to-back
  calls stops there; once the goroutine has gone, the same call starts a new loop.
\<close>

lemma loop_on_its_way_out:
  "attached example_stopped \<and> phase example_stopped = Some (Leaving None)
   \<and> attached example_sent_100 \<and> phase example_sent_100 = Some (Leaving (Some High))
   \<and> line example_sent_100 = Low"
  by code_simp

lemma call_overlapping_exit:
  "SetPWM 50 None example_stopped = Races
   \<and> SetPWM 0 None example_sent_100 = Races
   \<and> Close None None None example_sent_100 = Races
   \<and> run [DoSetPWM 50 None, DoSetPWM 0 None, DoSetPWM 50 None] (new_pin 4 Low) =
       example_stopped
   \<and> phase (run [DoSetPWM 50 None, DoSetPWM 0 None, DoFinish 0 None, DoSetPWM 50 None]
        (new_pin 4 Low)) = Some Select"
  by code_simp

section \<open>A call during the hold of a cycle\<close>

text \<open>
  While the goroutine sleeps between the High and the Low write, a call waits; the hold
  lasts \<open>highDuration\<close>, at most one period for a duty value from 0 to 100. After the
  wrapped value of C10 has been delivered, the hold that a \<open>SetPWM(0)\<close> has to wait out
  is 9223372036854751616 ns.
\<close>

lemma call_during_hold:
  "SetPWM 0 None example_holding = Waits
   \<and> SetPWM 70 None example_holding = Waits
   \<and> Close None None None example_holding = Waits
   \<and> phase (run [DoSetPWM 50 None, DoSetPWM (- 46116860184274) None, DoTickHigh 0 None]
        (new_pin 4 Low)) = Some Holding
   \<and> SetPWM 0 None
       (run [DoSetPWM 50 None, DoSetPWM (- 46116860184274) None, DoTickHigh 0 None]
          (new_pin 4 Low)) = Waits
   \<and> trace (run [DoSetPWM 50 None, DoSetPWM (- 46116860184274) None, DoTickHigh 0 None]
        (new_pin 4 Low)) = [Wrote High None, Slept 9223372036854751616]"
  by code_simp

lemma phase_after_tick_low:
  assumes "attached s" "tasks s = [t]" "at t = Holding"
  shows "phase (tick_low 0 None s) = Some Select"
    and "phase (tick_low 0 (Some e) s) = Some (QuitWait e)"
  by (simp_all add: tick_low_holding[OF assms(2,3)] phase_def)

section \<open>After the reply to a stop request\<close>




section \<open>What \<open>SetPWM\<close> returns\<close>

text \<open>
  C4, as amended. \<open>SetPWM(v)\<close> never returns an error: whenever it returns, it returns
  \<open>nil\<close>, whatever the line writes and the stop reply answer. On a pin whose fields and
  goroutine agree: with no loop, or with the loop waiting at its \<open>select\<close>, it returns
  \<open>nil\<close> for every \<open>v\<close>; with the loop parked after a failed write it returns \<open>nil\<close> for
  \<open>v = 0\<close>, and for every other \<open>v\<close> the send on \<open>p.pwmLoop\<close> has no receiver and the
  call blocks for ever; with the loop inside the hold of a cycle the call waits for the
  end of the hold and the Low write, after which the loop is at its \<open>select\<close>, or parked
  if that write failed. A call that overlaps the way out of a loop is left out.
\<close>

theorem SetPWM_returns_nil_or_blocks:
  assumes "consistent s"
  shows "(phase s = None \<or> phase s = Some Select \<longrightarrow> (\<exists>s'. SetPWM v out s = Returns None s'))
     \<and> (phase s = Some (QuitWait e) \<longrightarrow>
          (if v = 0 then (\<exists>s'. SetPWM v out s = Returns None s')
           else SetPWM v out s = Blocks))
     \<and> (phase s = Some Holding \<longrightarrow>
          SetPWM v out s = Waits
          \<and> phase (tick_low 0 None s) = Some Select
          \<and> phase (tick_low 0 (Some e') s) = Some (QuitWait e'))
     \<and> (SetPWM v out s = Returns r s'' \<longrightarrow> r = None)"
proof -
  have nil: "SetPWM v out s = Returns r s'' \<longrightarrow> r = None"
    by (auto simp: SetPWM_def split: if_splits result.splits)
  from assms show ?thesis
  proof (cases rule: consistent_cases)
    case idle
    with nil show ?thesis
      by (cases "v = 0") (simp_all add: SetPWM_def startPwmLoop_detached stopPwmLoop_detached)
  next
    case (running t)
    with nil show ?thesis
      by (cases "v = 0") (simp_all add: SetPWM_def startPwmLoop_forward stopPwmLoop_select)
  next
    case (inhold t)
    with nil phase_after_tick_low[OF inhold(1,2,3)] show ?thesis
      by (cases "v = 0") (simp_all add: SetPWM_def startPwmLoop_holding stopPwmLoop_holding)
  next
    case (stuck t e1)
    with nil show ?thesis
      by (cases "v = 0") (simp_all add: SetPWM_def startPwmLoop_parked stopPwmLoop_parked)
  next
    case (going t w)
    with nil show ?thesis by simp
  qed
qed

text \<open>
  The amended C4 on the parked example, where the stop reply carries \<open>EIO\<close> and the Low
  write fails too: \<open>SetPWM(0)\<close> still returns \<open>nil\<close>.
\<close>

theorem SetPWM_returns_nil_or_blocks_witness:
  "consistent example_parked \<and> phase example_parked = Some (QuitWait ''EIO'')
   \<and> returned (SetPWM 0 (Some ''EIO'') example_parked) = Some None"
proof -
  have c: "consistent example_parked"
    by (simp add: example_parked_eq consistent_def attached_def)
  have p: "phase example_parked = Some (QuitWait ''EIO'')"
    by (simp add: example_parked_eq phase_def)
  from SetPWM_returns_nil_or_blocks[OF c, of 0 "Some ''EIO''" "''EIO''"] p
  obtain s' where "SetPWM 0 (Some ''EIO'') example_parked = Returns None s'"
    by auto
  with c p show ?thesis by simp
qed

text \<open>
  C4 as stated fails: on the parked example \<open>SetPWM(50)\<close> does not return.
\<close>

theorem SetPWM_blocks_counterexample:
  "SetPWM 50 None example_parked = Blocks"
  by code_simp

section \<open>\<open>SetPWM(0)\<close>\<close>




section \<open>At most one loop\<close>

text \<open>
  C6, as amended. After every sequence of \<open>SetPWM\<close> calls, \<open>Close\<close> calls and steps of the
  loop on a new pin, followed up to the first call that overlaps the way out of a loop,
  at most one loop goroutine is alive, and the channel field is set exactly while one
  is. A \<open>SetPWM(v)\<close> with \<open>v\<close> in 1..99 starts a loop only when none is attached. When one
  is attached it never starts a second one: if the loop waits at its \<open>select\<close> the call
  hands it \<open>v\<close> and returns; if the loop is inside the hold of a cycle the call waits;
  if the loop is parked after a failed write the value is not delivered and the call
  blocks for ever.
\<close>

theorem at_most_one_loop:
  assumes "s = run as (new_pin ch lv)"
  shows "length (tasks s) \<le> 1 \<and> pwmLoop s = (length (tasks s) = 1)
     \<and> (1 \<le> sint v \<and> sint v \<le> 99 \<longrightarrow>
          (phase s = None \<longrightarrow>
             SetPWM v out s = Returns None (s\<lparr>pwmLoop := True, quitPwmLoop := True,
                tasks := [\<lparr>highDuration = 0, at = Select\<rparr>]\<rparr>))
        \<and> (phase s = Some Select \<longrightarrow>
             (\<exists>t. tasks s = [t]
               \<and> SetPWM v out s =
                   Returns None (s\<lparr>tasks := [t\<lparr>highDuration := valueToDuration v period\<rparr>]\<rparr>)))
        \<and> (phase s = Some Holding \<longrightarrow> SetPWM v out s = Waits)
        \<and> (phase s = Some (QuitWait e) \<longrightarrow> SetPWM v out s = Blocks))"
proof -
  have c: "consistent s"
    unfolding assms by (rule run_consistent[OF consistent_new_pin])
  have v: "v \<noteq> 0 \<and> v \<noteq> 100" if "1 \<le> sint v" "sint v \<le> 99"
    using that by auto
  from c show ?thesis
  proof (cases rule: consistent_cases)
    case idle
    with v show ?thesis
      by (auto simp: detached_def SetPWM_def startPwmLoop_detached)
  next
    case (running t)
    with v show ?thesis
      by (auto simp: attached_def SetPWM_def startPwmLoop_forward)
  next
    case (inhold t)
    with v show ?thesis
      by (auto simp: attached_def SetPWM_def startPwmLoop_holding)
  next
    case (stuck t e1)
    with v show ?thesis
      by (auto simp: attached_def SetPWM_def startPwmLoop_parked)
  next
    case (going t w)
    then show ?thesis by (auto simp: attached_def)
  qed
qed

text \<open>The amended C6 on a pin that was started at 50 and is then set to 30.\<close>

theorem at_most_one_loop_witness:
  "phase (run [DoSetPWM 50 None] (new_pin 4 Low)) = Some Select
   \<and> 1 \<le> sint (30 :: goint) \<and> sint (30 :: goint) \<le> 99
   \<and> length (tasks (run [DoSetPWM 50 None] (new_pin 4 Low))) \<le> 1
   \<and> pwmLoop (run [DoSetPWM 50 None] (new_pin 4 Low))
   \<and> tasks (run [DoSetPWM 50 None] (new_pin 4 Low)) = [\<lparr>highDuration = 0, at = Select\<rparr>]
   \<and> SetPWM 30 None (run [DoSetPWM 50 None] (new_pin 4 Low)) =
       Returns None ((run [DoSetPWM 50 None] (new_pin 4 Low))
         \<lparr>tasks := [\<lparr>highDuration = valueToDuration 30 period, at = Select\<rparr>]\<rparr>)"
proof -
  let ?s = "run [DoSetPWM 50 None] (new_pin 4 Low)"
  have p: "phase ?s = Some Select" by code_simp
  have b: "1 \<le> sint (30 :: goint) \<and> sint (30 :: goint) \<le> 99" by simp
  have k: "tasks ?s = [\<lparr>highDuration = 0, at = Select\<rparr>]" by code_simp
  note th = at_most_one_loop[OF refl, of "[DoSetPWM 50 None]" 4 Low 30 None "''EIO''"]
  from th have l: "length (tasks ?s) \<le> 1" and q: "pwmLoop ?s = (length (tasks ?s) = 1)"
    by blast+
  from th p b obtain t where t: "tasks ?s = [t]"
    and r: "SetPWM 30 None ?s =
      Returns None (?s\<lparr>tasks := [t\<lparr>highDuration := valueToDuration 30 period\<rparr>]\<rparr>)"
    by blast
  from t k have "t = \<lparr>highDuration = 0, at = Select\<rparr>" by (simp del: run.simps)
  with r have r': "SetPWM 30 None ?s =
      Returns None (?s\<lparr>tasks := [\<lparr>highDuration = valueToDuration 30 period, at = Select\<rparr>]\<rparr>)"
    by (simp del: run.simps)
  from q k have "pwmLoop ?s" by (simp del: run.simps)
  with p b l k r' show ?thesis by blast
qed

text \<open>
  C6 as stated fails: on the running example after a tick whose Low write failed, a
  loop is attached and \<open>SetPWM(30)\<close> does not hand the value to it: the call blocks.
\<close>

theorem not_forwarded_counterexample:
  "pwmLoop (tick 0 None (Some ''EIO'') example_running) = True
   \<and> length (tasks (tick 0 None (Some ''EIO'') example_running)) = 1
   \<and> SetPWM 30 None (tick 0 None (Some ''EIO'') example_running) = Blocks"
  by code_simp

section \<open>\<open>Close\<close>\<close>




section \<open>Durations\<close>

text \<open>
  C8. For every duty value \<open>v\<close> from 0 to 100, \<open>valueToDuration(v, period)\<close> with the
  20 ms period is \<open>v\<close> times 200 microseconds, with no wrap-around: as an integer count
  of nanoseconds it is \<open>200000 * v\<close>, which is exactly \<open>period * v / 100\<close>.
\<close>

theorem valueToDuration_exact:
  assumes "0 \<le> sint v" "sint v \<le> 100"
  shows "valueToDuration v period = v * (200 * Microsecond)
     \<and> sint (valueToDuration v period) = sint v * (200 * sint Microsecond)
     \<and> 100 * sint (valueToDuration v period) = sint period * sint v
     \<and> period = 20 * Millisecond"
proof -
  have w: "valueToDuration v period = v * (200 * Microsecond)"
    by (simp add: valueToDuration_def quo_period Microsecond_def)
  have e: "sint (valueToDuration v period) = 200000 * sint v"
    using sint_scale[of v] assms by (simp add: valueToDuration_def quo_period)
  have p: "sint period = 20000000" and m: "sint Microsecond = 1000"
    by (simp_all add: period_def Millisecond_def Microsecond_def)
  have x: "sint (valueToDuration v period) = sint v * (200 * sint Microsecond)"
    by (simp add: e m)
  have y: "100 * sint (valueToDuration v period) = sint period * sint v"
    by (simp add: e p)
  from w x y show ?thesis by (simp add: period_def)
qed

text \<open>C8 at 50 percent: 10 ms.\<close>

theorem valueToDuration_exact_witness:
  "0 \<le> sint (50 :: goint) \<and> sint (50 :: goint) \<le> 100
   \<and> valueToDuration 50 period = 10 * Millisecond
   \<and> sint (valueToDuration 50 period) = 10000000"
proof -
  have h1: "0 \<le> sint (50 :: goint)" and h2: "sint (50 :: goint) \<le> 100"
    by simp_all
  from valueToDuration_exact[OF h1 h2] h1 h2 show ?thesis
    by (simp add: Microsecond_def Millisecond_def)
qed

section \<open>\<open>GetValue\<close>\<close>

text \<open>
  C9. When the read of the value file fails, \<open>GetValue\<close> returns 0 and a \<open>nil\<close> error,
  whatever the read error was (so \<open>IsHigh\<close> answers false, with no error); when the
  read succeeds, it returns what \<open>strconv.Atoi\<close> returns on the content, value and error
  alike.
\<close>

theorem GetValue_swallows_read_error:
  "GetValue atoi (Inl err) = (0, None) \<and> GetValue atoi (Inr b) = atoi b
   \<and> IsHigh atoi (Inl err) = (False, None)"
  by (simp add: GetValue_def IsHigh_def)

section \<open>Negative duty values\<close>




end
